theory Spec2Isabelle
  imports Main "HOL-Library.Word"
begin

unbundle bit_operations_syntax

section \<open>NAT negotiation server: data model\<close>

text \<open>
  The development embeds the NATNEG package (\<^verbatim>\<open>package natneg\<close>): the session registry,
  the packet dispatcher \<^verbatim>\<open>handleConnection\<close>, the three command handlers, the pairing
  engine \<^verbatim>\<open>sendConnectRequests\<close> and the 30 second expiry callback.

  Handlers of one session run under the session mutex, so each of them is a function from
  the state before to the state after. What a handler does to the outside world is returned
  as a list of events, in program order.
\<close>

type_synonym byte = "8 word"
type_synonym uint16 = "16 word"
type_synonym uint32 = "32 word"

subsection \<open>Constants\<close>

abbreviation (input) NNInitRequest :: byte where "NNInitRequest \<equiv> 0x00"
abbreviation (input) NNInitReply :: byte where "NNInitReply \<equiv> 0x01"
abbreviation (input) NNConnectRequest :: byte where "NNConnectRequest \<equiv> 0x05"
abbreviation (input) NNConnectReply :: byte where "NNConnectReply \<equiv> 0x06"
abbreviation (input) NNAddressCheckRequest :: byte where "NNAddressCheckRequest \<equiv> 0x0A"
abbreviation (input) NNNatifyRequest :: byte where "NNNatifyRequest \<equiv> 0x0C"
abbreviation (input) NNReportRequest :: byte where "NNReportRequest \<equiv> 0x0D"
abbreviation (input) NNReportReply :: byte where "NNReportReply \<equiv> 0x0E"

abbreviation (input) PortTypeGamePort :: byte where "PortTypeGamePort \<equiv> 0x00"

definition magic :: "byte list" where
  "magic = [0xfd, 0xfc, 0x1e, 0x66, 0x6a, 0xb2]"

subsection \<open>Structs\<close>

text \<open>
  \<^verbatim>\<open>NATNEGClient\<close>. \<^verbatim>\<open>Connected\<close> is a Go \<^verbatim>\<open>map[byte]bool\<close>; reading a missing key
  gives \<^verbatim>\<open>false\<close> (\<open>connected\<close> below).
\<close>

record NATNEGClient =
  Cookie :: uint32
  Index :: byte
  ConnectingIndex :: byte
  ConnectAck :: bool
  Connected :: "byte \<rightharpoonup> bool"
  NegotiateIP :: string
  LocalIP :: string
  ServerIP :: string
  GameName :: string

definition connected :: "NATNEGClient \<Rightarrow> byte \<Rightarrow> bool" where
  "connected client i = (case Connected client i of None \<Rightarrow> False | Some b \<Rightarrow> b)"

text \<open>
  \<^verbatim>\<open>NATNEGSession\<close>, without its mutex. The session's \<^verbatim>\<open>Cookie\<close> field is called
  \<open>SessionCookie\<close> here, the client's field has the name already. The clients are held
  through pointers, one object per key (\<^verbatim>\<open>handleInit\<close> allocates a new object for every
  new key and nothing else stores into the map), so the map of pointers is a map of values.
\<close>

record NATNEGSession =
  Open :: bool
  Version :: byte
  SessionCookie :: uint32
  Clients :: "byte \<rightharpoonup> NATNEGClient"

text \<open>
  The closure given to \<^verbatim>\<open>time.AfterFunc\<close> captures \<^verbatim>\<open>cookie\<close>, \<^verbatim>\<open>version\<close> and
  \<^verbatim>\<open>addr\<close> of the packet that created the session.
\<close>

record timer =
  t_cookie :: uint32
  t_version :: byte
  t_addr :: string

text \<open>The package variable \<^verbatim>\<open>sessions\<close>, and the timers that are armed.\<close>

record server =
  sessions :: "uint32 \<rightharpoonup> NATNEGSession"
  timers :: "timer list"

text \<open>
  \<open>WriteTo a p\<close> is \<^verbatim>\<open>conn.WriteTo(p, a)\<close>; \<open>GoRetry c i j\<close> is the \<^verbatim>\<open>go func\<close> of
  the pairing engine, started for the session with cookie \<open>c\<close>, sender key \<open>i\<close> and
  destination key \<open>j\<close>.
\<close>

datatype event = WriteTo string "byte list" | GoRetry uint32 byte byte

subsection \<open>Go slices\<close>

text \<open>
  A byte slice is its backing store from the slice's first element up to its capacity,
  and its length. Indexing checks the length, slicing checks the capacity.
\<close>

datatype slice = Slice (store: "byte list") (len: nat)

datatype panic = IndexOutOfRange nat nat | SliceBoundsOutOfRange nat nat

definition cap :: "slice \<Rightarrow> nat" where
  "cap s = length (store s)"

definition bytes :: "slice \<Rightarrow> byte list" where
  "bytes s = take (len s) (store s)"

definition index :: "slice \<Rightarrow> nat \<Rightarrow> panic + byte" where
  "index s i = (if i < len s then Inr (store s ! i) else Inl (IndexOutOfRange i (len s)))"

text \<open>\<^verbatim>\<open>s[a:]\<close>\<close>

definition slice_from :: "slice \<Rightarrow> nat \<Rightarrow> panic + slice" where
  "slice_from s a =
     (if a \<le> len s then Inr (Slice (drop a (store s)) (len s - a))
      else Inl (SliceBoundsOutOfRange a (len s)))"

text \<open>\<^verbatim>\<open>s[:b]\<close>\<close>

definition slice_to :: "slice \<Rightarrow> nat \<Rightarrow> panic + slice" where
  "slice_to s b =
     (if b \<le> cap s then Inr (Slice (store s) b)
      else Inl (SliceBoundsOutOfRange b (cap s)))"

text \<open>
  \<^verbatim>\<open>StartServer\<close>: \<^verbatim>\<open>buffer := make([]byte, 1024)\<close>, \<^verbatim>\<open>conn.ReadFrom(buffer)\<close>,
  \<^verbatim>\<open>buffer[:size]\<close>.
\<close>

definition readFrom :: "byte list \<Rightarrow> slice" where
  "readFrom datagram =
     Slice (take 1024 datagram @ replicate (1024 - length datagram) 0)
           (min 1024 (length datagram))"

subsection \<open>Byte order and formatting\<close>

text \<open>\<^verbatim>\<open>binary.BigEndian.Uint32\<close>, \<^verbatim>\<open>Uint16\<close> and \<^verbatim>\<open>AppendUint32\<close>.\<close>

definition be_uint32 :: "byte list \<Rightarrow> uint32" where
  "be_uint32 b =
     ucast (b ! 3) OR push_bit 8 (ucast (b ! 2)) OR push_bit 16 (ucast (b ! 1))
       OR push_bit 24 (ucast (b ! 0))"

definition be_uint16 :: "byte list \<Rightarrow> uint16" where
  "be_uint16 b = ucast (b ! 1) OR push_bit 8 (ucast (b ! 0))"

definition be_bytes32 :: "uint32 \<Rightarrow> byte list" where
  "be_bytes32 v = [ucast (drop_bit 24 v), ucast (drop_bit 16 v), ucast (drop_bit 8 v), ucast v]"

definition createPacketHeader :: "byte \<Rightarrow> byte \<Rightarrow> uint32 \<Rightarrow> byte list" where
  "createPacketHeader version command cookie =
     [0xfd, 0xfc, 0x1e, 0x66, 0x6a, 0xb2, version, command] @ be_bytes32 cookie"

text \<open>The verb \<^verbatim>\<open>%d\<close> of \<^verbatim>\<open>fmt.Sprintf\<close> on an unsigned value.\<close>

definition digit :: "nat \<Rightarrow> char" where
  "digit d = char_of (48 + d)"

function decimal :: "nat \<Rightarrow> string" where
  "decimal n = (if n < 10 then [digit n] else decimal (n div 10) @ [digit (n mod 10)])"
  by pat_completeness auto
termination
  by (relation "measure (\<lambda>n. n)") auto

declare decimal.simps [simp del]

text \<open>\<^verbatim>\<open>fmt.Sprintf("%d.%d.%d.%d:%d", ...)\<close>\<close>

definition formatLocalIP :: "byte list \<Rightarrow> uint16 \<Rightarrow> string" where
  "formatLocalIP ip port =
     decimal (unat (ip ! 0)) @ ''.'' @ decimal (unat (ip ! 1)) @ ''.'' @
     decimal (unat (ip ! 2)) @ ''.'' @ decimal (unat (ip ! 3)) @ '':'' @ decimal (unat port)"

section \<open>The pairing engine\<close>

definition isMapped :: "NATNEGClient \<Rightarrow> bool" where
  "isMapped client =
     (if NegotiateIP client = [] \<or> ServerIP client = [] then False else True)"

text \<open>
  Go leaves the order of \<^verbatim>\<open>range\<close> over a map open, and chooses it anew for every loop.
  No loop of the package adds or removes a key of the map it ranges over, so each of them
  visits every key once. The order is an argument of the model: \<open>range_names\<close> for the loop
  of \<^verbatim>\<open>handleInit\<close>, \<open>range_outer\<close> for the outer loop of \<^verbatim>\<open>sendConnectRequests\<close>, and
  \<open>range_inner id'\<close> for its inner loop in the iteration of the outer key \<open>id'\<close>. Such a list
  is an order of the map \<open>m\<close> when \<open>range_of m ks\<close> holds. What is proved below for all
  schedules holds for every list, and so for every order; the sample runs use orders.
\<close>

record schedule =
  range_names :: "byte list"
  range_outer :: "byte list"
  range_inner :: "byte \<Rightarrow> byte list"

definition range_of :: "('k \<rightharpoonup> 'v) \<Rightarrow> 'k list \<Rightarrow> bool" where
  "range_of m ks = (distinct ks \<and> set ks = dom m)"

type_synonym clients = "byte \<rightharpoonup> NATNEGClient"

text \<open>
  One iteration of the inner loop, for the outer key \<open>id'\<close> and the inner key \<open>destID\<close>.
  \<^verbatim>\<open>sender\<close> and \<^verbatim>\<open>destination\<close> are pointers: the fields are read from the objects as
  they are now, and written there. The state of the loop is the client map and the retry
  tasks started so far.
\<close>

definition pairStep :: "byte \<Rightarrow> byte \<Rightarrow> clients \<times> (byte \<times> byte) list \<Rightarrow> clients \<times> (byte \<times> byte) list" where
  "pairStep id' destID st =
     (case fst st destID of
        None \<Rightarrow> st
      | Some destination \<Rightarrow>
          if id' = destID \<or> \<not> isMapped destination \<or> ConnectingIndex destination \<noteq> destID
               \<or> connected destination id'
          then st
          else
            (case fst st id' of
               None \<Rightarrow> st
             | Some sender \<Rightarrow>
                 ((fst st)
                    (id' \<mapsto> sender\<lparr>ConnectingIndex := destID, ConnectAck := False\<rparr>,
                     destID \<mapsto> destination\<lparr>ConnectingIndex := id', ConnectAck := False\<rparr>),
                  snd st @ [(id', destID)])))"

text \<open>One iteration of the outer loop.\<close>

definition senderStep :: "(byte \<Rightarrow> byte list) \<Rightarrow> byte \<Rightarrow> clients \<times> (byte \<times> byte) list \<Rightarrow> clients \<times> (byte \<times> byte) list" where
  "senderStep inner id' st =
     (case fst st id' of
        None \<Rightarrow> st
      | Some sender \<Rightarrow>
          if \<not> isMapped sender \<or> ConnectingIndex sender \<noteq> id' then st
          else fold (pairStep id') (inner id') st)"

definition pairClients :: "schedule \<Rightarrow> clients \<Rightarrow> clients \<times> (byte \<times> byte) list" where
  "pairClients sch cs = fold (senderStep (range_inner sch)) (range_outer sch) (cs, [])"

definition sendConnectRequests :: "schedule \<Rightarrow> NATNEGSession \<Rightarrow> NATNEGSession \<times> event list" where
  "sendConnectRequests sch session =
     (let r = pairClients sch (Clients session)
      in (session\<lparr>Clients := fst r\<rparr>,
          map (\<lambda>p. GoRetry (SessionCookie session) (fst p) (snd p)) (snd r)))"

section \<open>The handlers\<close>

subsection \<open>Init\<close>

text \<open>
  \<^verbatim>\<open>common.GetString\<close> is not part of the package; it is an argument of the model, and
  gives \<open>None\<close> where the Go function returns an error.
\<close>

type_synonym getstring = "byte list \<Rightarrow> string option"

text \<open>The loop over the other clients of \<^verbatim>\<open>handleInit\<close>: is there a game name mismatch?\<close>

fun gameNameMismatch :: "byte list \<Rightarrow> clients \<Rightarrow> string \<Rightarrow> bool" where
  "gameNameMismatch [] cs gameName = False"
| "gameNameMismatch (k # ks) cs gameName =
     (case cs k of
        None \<Rightarrow> gameNameMismatch ks cs gameName
      | Some other \<Rightarrow>
          if GameName other \<noteq> gameName then True else gameNameMismatch ks cs gameName)"

definition newClient :: "uint32 \<Rightarrow> byte \<Rightarrow> NATNEGClient" where
  "newClient cookie clientIndex =
     \<lparr>Cookie = cookie, Index = clientIndex, ConnectingIndex = clientIndex,
      ConnectAck = False, Connected = Map.empty,
      NegotiateIP = [], LocalIP = [], ServerIP = [], GameName = []\<rparr>"

text \<open>The assignments to the sender after it has been found or created.\<close>

definition learnAddresses :: "string \<Rightarrow> byte \<Rightarrow> byte \<Rightarrow> uint16 \<Rightarrow> string \<Rightarrow> string \<Rightarrow> NATNEGClient \<Rightarrow> NATNEGClient" where
  "learnAddresses addr portType useGamePort localPort localIPStr gameName sender =
     (let s1 = sender\<lparr>GameName := gameName\<rparr>;
          s2 = (if portType \<noteq> PortTypeGamePort then s1\<lparr>NegotiateIP := addr\<rparr> else s1);
          s3 = (if localPort \<noteq> 0 then s2\<lparr>LocalIP := localIPStr\<rparr> else s2)
      in (if useGamePort = 0 \<or> portType = PortTypeGamePort then s3\<lparr>ServerIP := addr\<rparr> else s3))"

definition handleInit :: "getstring \<Rightarrow> schedule \<Rightarrow> string \<Rightarrow> slice \<Rightarrow> byte \<Rightarrow> NATNEGSession \<Rightarrow> NATNEGSession \<times> event list" where
  "handleInit getString sch addr buffer version session =
     (let b = bytes buffer in
      if length b < 10 then (session, [])
      else
        let portType = b ! 0;
            clientIndex = b ! 1;
            useGamePort = b ! 2;
            localIPBytes = take 4 (drop 3 b);
            localPort = be_uint16 (take 2 (drop 7 b))
        in
          (case getString (drop 9 b) of
             None \<Rightarrow> (session, [])
           | Some gameName \<Rightarrow>
               let localIPStr = formatLocalIP localIPBytes localPort in
               if portType > 0x03 then (session, [])
               else if useGamePort > 1 then (session, [])
               else if useGamePort = 0 \<and> portType = PortTypeGamePort then (session, [])
               else
                 let ack = WriteTo addr
                       (createPacketHeader version NNInitReply (SessionCookie session)
                          @ [portType, clientIndex]
                          @ [0xff, 0xff, 0x6d, 0x16, 0xb5, 0x7d, 0xea]);
                     found =
                       (case Clients session clientIndex of
                          Some sender \<Rightarrow> Some sender
                        | None \<Rightarrow>
                            if gameNameMismatch (range_names sch) (Clients session) gameName
                            then None
                            else Some (newClient (SessionCookie session) clientIndex))
                 in
                   (case found of
                      None \<Rightarrow> (session, [ack])
                    | Some sender \<Rightarrow>
                        let sender' = learnAddresses addr portType useGamePort localPort
                                        localIPStr gameName sender;
                            session' = session\<lparr>Clients := (Clients session)(clientIndex \<mapsto> sender')\<rparr>
                        in
                          if \<not> isMapped sender' then (session', [ack])
                          else
                            let r = sendConnectRequests sch session'
                            in (fst r, ack # snd r))))"

subsection \<open>Connect reply\<close>

definition handleConnectReply :: "slice \<Rightarrow> NATNEGSession \<Rightarrow> panic + NATNEGSession \<times> event list" where
  "handleConnectReply buffer session =
     (case index buffer 1 of
        Inl p \<Rightarrow> Inl p
      | Inr clientIndex \<Rightarrow>
          (case Clients session clientIndex of
             Some client \<Rightarrow>
               Inr (session\<lparr>Clients := (Clients session)(clientIndex \<mapsto> client\<lparr>ConnectAck := True\<rparr>)\<rparr>, [])
           | None \<Rightarrow> Inr (session, [])))"

subsection \<open>Report\<close>

text \<open>
  The \<^verbatim>\<open>if client, exists := session.Clients[clientIndex]; exists\<close> block of
  \<^verbatim>\<open>handleReport\<close>.
\<close>

definition recordReport :: "byte \<Rightarrow> NATNEGSession \<Rightarrow> NATNEGSession" where
  "recordReport clientIndex session =
     (case Clients session clientIndex of
        None \<Rightarrow> session
      | Some client \<Rightarrow>
          session\<lparr>Clients := (Clients session)
            (clientIndex \<mapsto>
               client\<lparr>Connected := (Connected client)(ConnectingIndex client \<mapsto> True),
                      ConnectingIndex := clientIndex,
                      ConnectAck := False\<rparr>)\<rparr>)"

text \<open>
  The reply is written before \<^verbatim>\<open>buffer[1]\<close> and \<^verbatim>\<open>buffer[2]\<close> are read; a panic at
  one of them ends the process after the reply has left.
\<close>

definition handleReport :: "schedule \<Rightarrow> string \<Rightarrow> slice \<Rightarrow> byte \<Rightarrow> NATNEGSession \<Rightarrow> panic + NATNEGSession \<times> event list" where
  "handleReport sch addr buffer version session =
     (case slice_to buffer 9 of
        Inl p \<Rightarrow> Inl p
      | Inr head \<Rightarrow>
          let response = (createPacketHeader version NNReportReply (SessionCookie session)
                            @ bytes head)[14 := 0];
              reply = WriteTo addr response
          in
            (case index buffer 1 of
               Inl p \<Rightarrow> Inl p
             | Inr clientIndex \<Rightarrow>
                 (case index buffer 2 of
                    Inl p \<Rightarrow> Inl p
                  | Inr result \<Rightarrow>
                      let r = sendConnectRequests sch (recordReport clientIndex session)
                      in Inr (fst r, reply # snd r))))"

section \<open>Dispatch and expiry\<close>

definition newSession :: "byte \<Rightarrow> uint32 \<Rightarrow> NATNEGSession" where
  "newSession version cookie =
     \<lparr>Open = True, Version = version, SessionCookie = cookie, Clients = Map.empty\<rparr>"

text \<open>
  The \<^verbatim>\<open>switch\<close> of \<^verbatim>\<open>handleConnection\<close>. Every case but the three below only writes
  to the log, and so does the default.
\<close>

definition dispatch :: "getstring \<Rightarrow> schedule \<Rightarrow> string \<Rightarrow> slice \<Rightarrow> byte \<Rightarrow> byte \<Rightarrow> NATNEGSession \<Rightarrow> panic + NATNEGSession \<times> event list" where
  "dispatch getString sch addr payload version command session =
     (if command = NNInitRequest then Inr (handleInit getString sch addr payload version session)
      else if command = NNConnectReply then handleConnectReply payload session
      else if command = NNReportRequest then handleReport sch addr payload version session
      else Inr (session, []))"

text \<open>
  The block of \<^verbatim>\<open>handleConnection\<close> under the registry mutex: the session of the cookie
  is looked up, and created, stored and given its timer when there is none.
\<close>

definition findSession :: "byte \<Rightarrow> uint32 \<Rightarrow> string \<Rightarrow> server \<Rightarrow> NATNEGSession \<times> server" where
  "findSession version cookie addr st =
     (case sessions st cookie of
        Some session \<Rightarrow> (session, st)
      | None \<Rightarrow>
          (newSession version cookie,
           st\<lparr>sessions := (sessions st)(cookie \<mapsto> newSession version cookie),
              timers := timers st @ [\<lparr>t_cookie = cookie, t_version = version, t_addr = addr\<rparr>]\<rparr>))"

text \<open>
  The handlers change the session through its pointer; here the session they return is
  stored back under the cookie.
\<close>

definition handleConnection :: "getstring \<Rightarrow> schedule \<Rightarrow> string \<Rightarrow> slice \<Rightarrow> server \<Rightarrow> panic + server \<times> event list" where
  "handleConnection getString sch addr buffer st =
     (if len buffer < 12 \<or> take 6 (bytes buffer) \<noteq> magic then Inr (st, [])
      else
        let version = store buffer ! 6;
            command = store buffer ! 7;
            cookie = be_uint32 (take 4 (drop 8 (store buffer)))
        in
          if command \<noteq> NNNatifyRequest \<and> command \<noteq> NNAddressCheckRequest then
            let found = findSession version cookie addr st;
                session = fst found;
                st' = snd found
            in
              if Version session \<noteq> version then Inr (st', [])
              else
                (case slice_from buffer 12 of
                   Inl p \<Rightarrow> Inl p
                 | Inr payload \<Rightarrow>
                     (case dispatch getString sch addr payload version command session of
                        Inl p \<Rightarrow> Inl p
                      | Inr r \<Rightarrow> Inr (st'\<lparr>sessions := (sessions st')(cookie \<mapsto> fst r)\<rparr>, snd r)))
          else Inr (st, []))"

text \<open>
  The body of the timer's closure, for the clients in the order \<open>ks\<close> of the \<^verbatim>\<open>range\<close>:
  one packet for each client that is not idle, written to the captured \<^verbatim>\<open>addr\<close>.
\<close>

fun disconnectClients :: "byte list \<Rightarrow> timer \<Rightarrow> NATNEGSession \<Rightarrow> event list" where
  "disconnectClients [] t session = []"
| "disconnectClients (k # ks) t session =
     (case Clients session k of
        None \<Rightarrow> disconnectClients ks t session
      | Some client \<Rightarrow>
          if ConnectingIndex client = Index client then disconnectClients ks t session
          else
            WriteTo (t_addr t)
              (createPacketHeader (t_version t) NNReportReply (SessionCookie session)
                 @ [0x00, Index client, 0x00]
                 @ [0x00, 0x00, 0x00, 0x06, 0x00, 0x00])
            # disconnectClients ks t session)"

text \<open>
  The timer \<open>t\<close> fires: the session is closed and leaves the registry, its clients are
  told. A timer is armed when its session is created and at no other time, and the session
  stays in the registry until the timer fires, so the closure's session is the registry's.
\<close>

definition expire :: "byte list \<Rightarrow> timer \<Rightarrow> server \<Rightarrow> server \<times> event list" where
  "expire ks t st =
     (if t \<notin> set (timers st) then (st, [])
      else
        (case sessions st (t_cookie t) of
           None \<Rightarrow> (st\<lparr>timers := remove1 t (timers st)\<rparr>, [])
         | Some session \<Rightarrow>
             (st\<lparr>sessions := (sessions st)(t_cookie t := None),
                 timers := remove1 t (timers st)\<rparr>,
              disconnectClients ks t (session\<lparr>Open := False\<rparr>))))"

section \<open>Runs\<close>

text \<open>A sequence of Init packets handled for one session, each with its own schedule.\<close>

fun handleInits :: "getstring \<Rightarrow> (schedule \<times> string \<times> slice) list \<Rightarrow> byte \<Rightarrow> NATNEGSession \<Rightarrow> NATNEGSession" where
  "handleInits getString [] version session = session"
| "handleInits getString (p # ps) version session =
     handleInits getString ps version
       (fst (handleInit getString (fst p) (fst (snd p)) (snd (snd p)) version session))"

text \<open>
  What happens to the server: a datagram arrives, or a timer fires. A run ends at the
  first panic, which ends the process.
\<close>

datatype op = Receive schedule string slice | Fire "byte list" timer

fun step :: "getstring \<Rightarrow> op \<Rightarrow> server \<Rightarrow> panic + server \<times> event list" where
  "step getString (Receive sch addr buffer) st = handleConnection getString sch addr buffer st"
| "step getString (Fire ks t) st = Inr (expire ks t st)"

fun run :: "getstring \<Rightarrow> op list \<Rightarrow> server \<Rightarrow> panic + server \<times> event list" where
  "run getString [] st = Inr (st, [])"
| "run getString (x # xs) st =
     (case step getString x st of
        Inl p \<Rightarrow> Inl p
      | Inr r \<Rightarrow>
          (case run getString xs (fst r) of
             Inl p \<Rightarrow> Inl p
           | Inr r' \<Rightarrow> Inr (fst r', snd r @ snd r')))"

definition initial :: server where
  "initial = \<lparr>sessions = Map.empty, timers = []\<rparr>"

section \<open>Notions used in the statements\<close>

text \<open>
  \<open>eligible cs a b\<close>: in the client map \<open>cs\<close>, \<open>a\<close> and \<open>b\<close> are two different keys, both
  clients are mapped and idle, and \<open>a\<close> is not recorded in the connected set of \<open>b\<close>.
\<close>

definition eligible :: "clients \<Rightarrow> byte \<Rightarrow> byte \<Rightarrow> bool" where
  "eligible cs a b =
     (case cs a of
        None \<Rightarrow> False
      | Some ca \<Rightarrow>
          (case cs b of
             None \<Rightarrow> False
           | Some cb \<Rightarrow>
               a \<noteq> b \<and> isMapped ca \<and> ConnectingIndex ca = a
                 \<and> isMapped cb \<and> ConnectingIndex cb = b \<and> \<not> connected cb a))"

text \<open>
  What the pairing engine leaves alone: every field of a client but \<^verbatim>\<open>ConnectingIndex\<close>
  and \<^verbatim>\<open>ConnectAck\<close>.
\<close>

definition static :: "NATNEGClient \<Rightarrow> NATNEGClient" where
  "static c = c\<lparr>ConnectingIndex := 0, ConnectAck := False\<rparr>"

text \<open>
  The client maps before and after some steps of the engine: the same keys, the same
  static part under every key, and a client that is idle afterwards has not been touched.
\<close>

definition engine_rel :: "clients \<Rightarrow> clients \<Rightarrow> bool" where
  "engine_rel cs cs' =
     (\<forall>k. (cs k = None \<and> cs' k = None) \<or>
          (\<exists>c c'. cs k = Some c \<and> cs' k = Some c' \<and> static c' = static c \<and>
                  (ConnectingIndex c' = k \<longrightarrow> c' = c)))"

text \<open>
  \<open>accepted getString sch buffer session gameName sender\<close>: the Init payload \<open>buffer\<close>
  passes every check of \<^verbatim>\<open>handleInit\<close>, its game name is \<open>gameName\<close>, and \<open>sender\<close> is
  the client the handler goes on with: the registered one, or a new one when the index is
  new and no registered client has another game name.
\<close>

definition accepted :: "getstring \<Rightarrow> schedule \<Rightarrow> slice \<Rightarrow> NATNEGSession \<Rightarrow> string \<Rightarrow> NATNEGClient \<Rightarrow> bool" where
  "accepted getString sch buffer session gameName sender =
     (10 \<le> length (bytes buffer) \<and> getString (drop 9 (bytes buffer)) = Some gameName \<and>
      bytes buffer ! 0 \<le> 0x03 \<and> bytes buffer ! 2 \<le> 1 \<and>
      \<not> (bytes buffer ! 2 = 0 \<and> bytes buffer ! 0 = PortTypeGamePort) \<and>
      (case Clients session (bytes buffer ! 1) of
         Some c \<Rightarrow> sender = c
       | None \<Rightarrow> \<not> gameNameMismatch (range_names sch) (Clients session) gameName \<and>
                 sender = newClient (SessionCookie session) (bytes buffer ! 1)))"

text \<open>The sender after the assignments of \<^verbatim>\<open>handleInit\<close>, from the fields of the payload.\<close>

definition learned :: "string \<Rightarrow> slice \<Rightarrow> string \<Rightarrow> NATNEGClient \<Rightarrow> NATNEGClient" where
  "learned addr buffer gameName sender =
     learnAddresses addr (bytes buffer ! 0) (bytes buffer ! 2)
       (be_uint16 (take 2 (drop 7 (bytes buffer))))
       (formatLocalIP (take 4 (drop 3 (bytes buffer))) (be_uint16 (take 2 (drop 7 (bytes buffer)))))
       gameName sender"

definition addresses :: "NATNEGClient \<Rightarrow> string \<times> string \<times> string" where
  "addresses c = (NegotiateIP c, LocalIP c, ServerIP c)"

text \<open>Every key of the client map is the \<^verbatim>\<open>Index\<close> of its client.\<close>

definition keysAreIndexes :: "NATNEGSession \<Rightarrow> bool" where
  "keysAreIndexes session = (\<forall>i c. Clients session i = Some c \<longrightarrow> Index c = i)"

definition registryKeysAreIndexes :: "server \<Rightarrow> bool" where
  "registryKeysAreIndexes st =
     (\<forall>cookie session. sessions st cookie = Some session \<longrightarrow> keysAreIndexes session)"

definition connectedSet :: "NATNEGClient \<Rightarrow> byte set" where
  "connectedSet c = {i. connected c i}"

section \<open>Sample traffic\<close>

text \<open>
  Modelled from the spec: \<^verbatim>\<open>common.GetString\<close> is not among the sources; the spec calls it
  the parsing of a delimited string that runs to the end of the packet. The handlers take
  it as an argument. Where a concrete one is needed, the samples use this one: the
  characters up to a closing zero byte (the one byte that
  \<^verbatim>\<open>expectedSize := 9 + len(gameName) + 1\<close> counts), and an error when there is none.
\<close>

fun cString :: getstring where
  "cString [] = None"
| "cString (c # cs) = (if c = 0 then Some [] else map_option ((#) (char_of (unat c))) (cString cs))"

text \<open>
  Datagrams of version 3 for the cookie 7, the payload of a datagram as \<^verbatim>\<open>handleConnection\<close>
  passes it on, and an order of iteration that is the same list in every inner loop.
\<close>

definition sample_header :: "byte \<Rightarrow> byte list" where
  "sample_header command = magic @ [3, command, 0, 0, 0, 7]"

definition mkwii :: "byte list" where
  "mkwii = [109, 107, 119, 105, 105, 0]"

definition sample_init :: "byte \<Rightarrow> byte \<Rightarrow> byte \<Rightarrow> byte list \<Rightarrow> byte list" where
  "sample_init portType clientIndex useGamePort gameName =
     sample_header NNInitRequest
       @ [portType, clientIndex, useGamePort, 10, 0, 0, clientIndex, 0x1F, 0x90] @ gameName"

definition sample_report :: "byte \<Rightarrow> byte list" where
  "sample_report clientIndex =
     sample_header NNReportRequest @ [1, clientIndex, 1, 0, 0, 0, 0, 0, 0]"

definition payloadOf :: "byte list \<Rightarrow> slice" where
  "payloadOf datagram = Slice (drop 12 (store (readFrom datagram))) (len (readFrom datagram) - 12)"

definition sample_order :: "byte list \<Rightarrow> byte list \<Rightarrow> schedule" where
  "sample_order names ks = \<lparr>range_names = names, range_outer = ks, range_inner = (\<lambda>k. ks)\<rparr>"

definition mapped_client :: "byte \<Rightarrow> string \<Rightarrow> NATNEGClient" where
  "mapped_client i a =
     (newClient 7 i)\<lparr>NegotiateIP := a, LocalIP := formatLocalIP [10, 0, 0, i] 8080,
                      ServerIP := a, GameName := ''mkwii''\<rparr>"

definition sample_session :: NATNEGSession where
  "sample_session = (newSession 3 7)\<lparr>Clients := [1 \<mapsto> mapped_client 1 ''10.0.0.1:1'']\<rparr>"

definition sample_timer :: timer where
  "sample_timer = \<lparr>t_cookie = 7, t_version = 3, t_addr = ''10.0.0.1:1''\<rparr>"

definition sample_server :: server where
  "sample_server = \<lparr>sessions = [7 \<mapsto> sample_session], timers = [sample_timer]\<rparr>"

text \<open>The replies of the server to the samples.\<close>

definition init_reply :: "byte \<Rightarrow> byte list" where
  "init_reply clientIndex =
     createPacketHeader 3 NNInitReply 7 @ [1, clientIndex, 0xff, 0xff, 0x6d, 0x16, 0xb5, 0x7d, 0xea]"

definition report_reply :: "byte \<Rightarrow> byte list" where
  "report_reply clientIndex =
     createPacketHeader 3 NNReportReply 7 @ [1, clientIndex, 0, 0, 0, 0, 0, 0, 0]"

definition cancellation :: "byte \<Rightarrow> byte list" where
  "cancellation clientIndex =
     createPacketHeader 3 NNReportReply 7 @ [0, clientIndex, 0, 0, 0, 0, 6, 0, 0]"

text \<open>The game name \<^verbatim>\<open>x\<close>, with its closing byte.\<close>

definition other_name :: "byte list" where
  "other_name = [120, 0]"

text \<open>What a run leaves: a session, a client, the events.\<close>

definition sessionOf :: "uint32 \<Rightarrow> panic + server \<times> event list \<Rightarrow> NATNEGSession option" where
  "sessionOf cookie r = (case r of Inl p \<Rightarrow> None | Inr x \<Rightarrow> sessions (fst x) cookie)"

definition clientOf :: "uint32 \<Rightarrow> byte \<Rightarrow> panic + server \<times> event list \<Rightarrow> NATNEGClient option" where
  "clientOf cookie i r =
     (case sessionOf cookie r of None \<Rightarrow> None | Some session \<Rightarrow> Clients session i)"

definition eventsOf :: "panic + server \<times> event list \<Rightarrow> event list" where
  "eventsOf r = (case r of Inl p \<Rightarrow> [] | Inr x \<Rightarrow> snd x)"

text \<open>
  Two clients join from two addresses, each with one Init of port type 1 and
  \<^verbatim>\<open>useGamePort\<close> 0, which maps it; the second Init pairs them.
\<close>

definition two_join :: "op list" where
  "two_join =
     [Receive (sample_order [] [1]) ''10.0.0.1:1'' (readFrom (sample_init 1 1 0 mkwii)),
      Receive (sample_order [1] [1, 2]) ''10.0.0.2:2'' (readFrom (sample_init 1 2 0 mkwii))]"

text \<open>
  Both report, and a third client joins. The outer loop of the engine reaches the new
  client first.
\<close>

definition third_joins :: "op list" where
  "third_joins =
     two_join @
     [Receive (sample_order [] [1, 2]) ''10.0.0.1:1'' (readFrom (sample_report 1)),
      Receive (sample_order [] [1, 2]) ''10.0.0.2:2'' (readFrom (sample_report 2)),
      Receive (sample_order [1, 2] [3, 1, 2]) ''10.0.0.3:3'' (readFrom (sample_init 1 3 0 mkwii))]"

text \<open>Then the first client reports again.\<close>

definition first_reports_again :: "op list" where
  "first_reports_again =
     third_joins @
     [Receive (sample_order [] [1, 2, 3]) ''10.0.0.1:1'' (readFrom (sample_report 1))]"

text \<open>Sessions met on the way.\<close>

definition sample_pair :: NATNEGSession where
  "sample_pair = (newSession 3 7)
     \<lparr>Clients := [1 \<mapsto> mapped_client 1 ''10.0.0.1:1'', 2 \<mapsto> mapped_client 2 ''10.0.0.2:2'']\<rparr>"

definition paired_pair :: NATNEGSession where
  "paired_pair = (newSession 3 7)
     \<lparr>Clients := [1 \<mapsto> (mapped_client 1 ''10.0.0.1:1'')\<lparr>ConnectingIndex := 2\<rparr>,
                  2 \<mapsto> (mapped_client 2 ''10.0.0.2:2'')\<lparr>ConnectingIndex := 1\<rparr>]\<rparr>"

definition reported_once :: NATNEGSession where
  "reported_once = (newSession 3 7)
     \<lparr>Clients := [2 \<mapsto> (mapped_client 2 ''10.0.0.2:2'')\<lparr>ConnectingIndex := 1\<rparr>,
                  1 \<mapsto> (mapped_client 1 ''10.0.0.1:1'')\<lparr>Connected := [2 \<mapsto> True]\<rparr>]\<rparr>"

definition reported_twice :: NATNEGSession where
  "reported_twice = (newSession 3 7)
     \<lparr>Clients := [2 \<mapsto> (mapped_client 2 ''10.0.0.2:2'')\<lparr>ConnectingIndex := 1\<rparr>,
                  1 \<mapsto> (mapped_client 1 ''10.0.0.1:1'')\<lparr>Connected := [2 \<mapsto> True, 1 \<mapsto> True]\<rparr>]\<rparr>"

definition after_six :: NATNEGSession where
  "after_six = (newSession 3 7)
     \<lparr>Clients :=
        [3 \<mapsto> (mapped_client 3 ''10.0.0.3:3'')\<lparr>ConnectingIndex := 2\<rparr>,
         2 \<mapsto> (mapped_client 2 ''10.0.0.2:2'')\<lparr>ConnectingIndex := 3, Connected := [1 \<mapsto> True]\<rparr>,
         1 \<mapsto> (mapped_client 1 ''10.0.0.1:1'')\<lparr>Connected := [2 \<mapsto> True, 3 \<mapsto> True]\<rparr>]\<rparr>"

definition lopsided_trio :: NATNEGSession where
  "lopsided_trio = (newSession 3 7)
     \<lparr>Clients :=
        [1 \<mapsto> (mapped_client 1 ''10.0.0.1:1'')\<lparr>Connected := [2 \<mapsto> True, 3 \<mapsto> True]\<rparr>,
         2 \<mapsto> (mapped_client 2 ''10.0.0.2:2'')\<lparr>ConnectingIndex := 3, Connected := [1 \<mapsto> True]\<rparr>,
         3 \<mapsto> (mapped_client 3 ''10.0.0.3:3'')\<lparr>Connected := [2 \<mapsto> True]\<rparr>]\<rparr>"

section \<open>Unfolding the samples\<close>

lemmas sample_defs = sample_header_def mkwii_def sample_init_def sample_report_def payloadOf_def
  sample_order_def mapped_client_def readFrom_def magic_def initial_def newSession_def newClient_def

lemmas codec_defs = bytes_def cap_def index_def slice_from_def slice_to_def be_uint32_def
  be_uint16_def be_bytes32_def createPacketHeader_def formatLocalIP_def decimal.simps digit_def
  char_of_def bit_Suc_0_iff

lemmas observer_defs = sessionOf_def clientOf_def eventsOf_def sample_timer_def sample_session_def
  sample_server_def init_reply_def report_reply_def cancellation_def other_name_def two_join_def
  third_joins_def first_reports_again_def

lemmas session_defs = sample_pair_def paired_pair_def reported_once_def reported_twice_def
  after_six_def lopsided_trio_def

lemmas handler_defs = handleConnection_def findSession_def dispatch_def handleInit_def handleConnectReply_def
  handleReport_def recordReport_def learnAddresses_def isMapped_def connected_def
  sendConnectRequests_def pairClients_def senderStep_def pairStep_def Let_def


lemma static_fields:
  assumes "static c' = static c"
  shows "Cookie c' = Cookie c" "Index c' = Index c" "Connected c' = Connected c"
    "NegotiateIP c' = NegotiateIP c" "LocalIP c' = LocalIP c" "ServerIP c' = ServerIP c"
    "GameName c' = GameName c"
proof -
  have "Cookie (static c') = Cookie (static c)" using assms by simp
  then show "Cookie c' = Cookie c" by (simp add: static_def)
  have "Index (static c') = Index (static c)" using assms by simp
  then show "Index c' = Index c" by (simp add: static_def)
  have "Connected (static c') = Connected (static c)" using assms by simp
  then show "Connected c' = Connected c" by (simp add: static_def)
  have "NegotiateIP (static c') = NegotiateIP (static c)" using assms by simp
  then show "NegotiateIP c' = NegotiateIP c" by (simp add: static_def)
  have "LocalIP (static c') = LocalIP (static c)" using assms by simp
  then show "LocalIP c' = LocalIP c" by (simp add: static_def)
  have "ServerIP (static c') = ServerIP (static c)" using assms by simp
  then show "ServerIP c' = ServerIP c" by (simp add: static_def)
  have "GameName (static c') = GameName (static c)" using assms by simp
  then show "GameName c' = GameName c" by (simp add: static_def)
qed

lemma static_isMapped: "static c' = static c \<Longrightarrow> isMapped c' = isMapped c"
  using static_fields(4,6) [of c' c] by (simp add: isMapped_def)

lemma static_connected: "static c' = static c \<Longrightarrow> connected c' i = connected c i"
  using static_fields(3) [of c' c] by (simp add: connected_def)

lemma static_pair [simp]: "static (c\<lparr>ConnectingIndex := d, ConnectAck := a\<rparr>) = static c"
  by (simp add: static_def)

lemma engine_rel_refl: "engine_rel cs cs"
  by (simp add: engine_rel_def) (metis not_Some_eq)

lemma engine_rel_trans:
  assumes "engine_rel a b" "engine_rel b c"
  shows "engine_rel a c"
  unfolding engine_rel_def
proof
  fix k
  from assms(1) have A: "(a k = None \<and> b k = None) \<or>
          (\<exists>c c'. a k = Some c \<and> b k = Some c' \<and> static c' = static c \<and>
                  (ConnectingIndex c' = k \<longrightarrow> c' = c))" by (simp add: engine_rel_def)
  from assms(2) have B: "(b k = None \<and> c k = None) \<or>
          (\<exists>ca c'. b k = Some ca \<and> c k = Some c' \<and> static c' = static ca \<and>
                  (ConnectingIndex c' = k \<longrightarrow> c' = ca))" by (simp add: engine_rel_def)
  from A B show "(a k = None \<and> c k = None) \<or>
          (\<exists>ca c'. a k = Some ca \<and> c k = Some c' \<and> static c' = static ca \<and>
                  (ConnectingIndex c' = k \<longrightarrow> c' = ca))"
    by (elim disjE conjE exE) auto
qed

lemma pairStep_rel: "engine_rel (fst st) (fst (pairStep i d st))"
proof (cases "fst (pairStep i d st) = fst st")
  case True
  then show ?thesis by (simp add: engine_rel_refl)
next
  case False
  then obtain destination sender where
    d: "fst st d = Some destination" and s: "fst st i = Some sender" and ne: "i \<noteq> d"
    and r: "fst (pairStep i d st) = (fst st)
                    (i \<mapsto> sender\<lparr>ConnectingIndex := d, ConnectAck := False\<rparr>,
                     d \<mapsto> destination\<lparr>ConnectingIndex := i, ConnectAck := False\<rparr>)"
    by (auto simp: pairStep_def split: option.splits if_splits)
  show ?thesis
    unfolding engine_rel_def r
  proof
    fix k
    show "(fst st k = None \<and> ((fst st)
                    (i \<mapsto> sender\<lparr>ConnectingIndex := d, ConnectAck := False\<rparr>,
                     d \<mapsto> destination\<lparr>ConnectingIndex := i, ConnectAck := False\<rparr>)) k = None) \<or>
          (\<exists>c c'. fst st k = Some c \<and> ((fst st)
                    (i \<mapsto> sender\<lparr>ConnectingIndex := d, ConnectAck := False\<rparr>,
                     d \<mapsto> destination\<lparr>ConnectingIndex := i, ConnectAck := False\<rparr>)) k = Some c' \<and> static c' = static c \<and>
                  (ConnectingIndex c' = k \<longrightarrow> c' = c))"
      using d s ne by (cases "fst st k") auto
  qed
qed

lemma fold_pairStep_rel: "engine_rel (fst st) (fst (fold (pairStep i) ds st))"
proof (induction ds arbitrary: st)
  case Nil
  show ?case by (simp add: engine_rel_refl)
next
  case (Cons d ds)
  have "engine_rel (fst st) (fst (pairStep i d st))" by (rule pairStep_rel)
  moreover have "engine_rel (fst (pairStep i d st)) (fst (fold (pairStep i) ds (pairStep i d st)))"
    by (rule Cons.IH)
  ultimately show ?case by (simp add: engine_rel_trans)
qed

lemma senderStep_rel: "engine_rel (fst st) (fst (senderStep inner i st))"
  by (simp add: senderStep_def engine_rel_refl fold_pairStep_rel split: option.splits)

lemma fold_senderStep_rel: "engine_rel (fst st) (fst (fold (senderStep inner) ks st))"
proof (induction ks arbitrary: st)
  case Nil
  show ?case by (simp add: engine_rel_refl)
next
  case (Cons k ks)
  have "engine_rel (fst st) (fst (senderStep inner k st))" by (rule senderStep_rel)
  moreover have "engine_rel (fst (senderStep inner k st)) (fst (fold (senderStep inner) ks (senderStep inner k st)))"
    by (rule Cons.IH)
  ultimately show ?case by (simp add: engine_rel_trans)
qed

lemma pairClients_rel: "engine_rel cs (fst (pairClients sch cs))"
  using fold_senderStep_rel [of "(cs, [])"] by (simp add: pairClients_def)


section \<open>The pairs the engine makes\<close>

lemma engine_rel_idle:
  assumes "engine_rel cs0 cs" "cs k = Some c" "ConnectingIndex c = k"
  shows "cs0 k = Some c"
proof -
  from assms(1) have "(cs0 k = None \<and> cs k = None) \<or>
          (\<exists>c c'. cs0 k = Some c \<and> cs k = Some c' \<and> static c' = static c \<and>
                  (ConnectingIndex c' = k \<longrightarrow> c' = c))"
    by (simp add: engine_rel_def)
  with assms(2,3) show ?thesis by auto
qed

lemma engine_rel_Some:
  assumes "engine_rel cs cs'" "cs k = Some c"
  shows "\<exists>c'. cs' k = Some c' \<and> static c' = static c"
proof -
  from assms(1) have "(cs k = None \<and> cs' k = None) \<or>
          (\<exists>c c'. cs k = Some c \<and> cs' k = Some c' \<and> static c' = static c \<and>
                  (ConnectingIndex c' = k \<longrightarrow> c' = c))"
    by (simp add: engine_rel_def)
  with assms(2) show ?thesis by auto
qed

lemma engine_rel_None:
  assumes "engine_rel cs cs'" "cs k = None"
  shows "cs' k = None"
proof -
  from assms(1) have "(cs k = None \<and> cs' k = None) \<or>
          (\<exists>c c'. cs k = Some c \<and> cs' k = Some c' \<and> static c' = static c \<and>
                  (ConnectingIndex c' = k \<longrightarrow> c' = c))"
    by (simp add: engine_rel_def)
  with assms(2) show ?thesis by auto
qed

lemma pairStep_eligible:
  assumes rel: "engine_rel cs0 (fst st)"
    and snd0: "cs0 i = Some s0" "isMapped s0" "ConnectingIndex s0 = i"
    and old: "\<And>a b. (a, b) \<in> set (snd st) \<Longrightarrow> eligible cs0 a b"
    and new: "(a, b) \<in> set (snd (pairStep i d st))"
  shows "eligible cs0 a b"
proof (cases "(a, b) \<in> set (snd st)")
  case True
  then show ?thesis by (rule old)
next
  case False
  with new obtain destination where
    d: "fst st d = Some destination" and ne: "i \<noteq> d" and m: "isMapped destination"
    and idle: "ConnectingIndex destination = d" and nc: "\<not> connected destination i"
    and ab: "a = i" "b = d"
    by (auto simp: pairStep_def split: option.splits if_splits)
  have "cs0 d = Some destination" using rel d idle by (rule engine_rel_idle)
  then show ?thesis using snd0 ne m idle nc ab by (simp add: eligible_def)
qed

lemma fold_pairStep_eligible:
  assumes "engine_rel cs0 (fst st)"
    and "cs0 i = Some s0" "isMapped s0" "ConnectingIndex s0 = i"
    and "\<And>a b. (a, b) \<in> set (snd st) \<Longrightarrow> eligible cs0 a b"
    and "(a, b) \<in> set (snd (fold (pairStep i) ds st))"
  shows "eligible cs0 a b"
  using assms
proof (induction ds arbitrary: st)
  case Nil
  then show ?case by simp
next
  case (Cons d ds)
  have r: "engine_rel cs0 (fst (pairStep i d st))"
    using Cons.prems(1) pairStep_rel by (rule engine_rel_trans)
  have e: "\<And>a b. (a, b) \<in> set (snd (pairStep i d st)) \<Longrightarrow> eligible cs0 a b"
    using Cons.prems(1-5) by (rule pairStep_eligible)
  show ?case
    using r Cons.prems(2-4) e
  proof (rule Cons.IH)
    show "(a, b) \<in> set (snd (fold (pairStep i) ds (pairStep i d st)))"
      using Cons.prems(6) by simp
  qed
qed

lemma senderStep_eligible:
  assumes rel: "engine_rel cs0 (fst st)"
    and old: "\<And>a b. (a, b) \<in> set (snd st) \<Longrightarrow> eligible cs0 a b"
    and new: "(a, b) \<in> set (snd (senderStep inner i st))"
  shows "eligible cs0 a b"
proof (cases "senderStep inner i st = st")
  case True
  then show ?thesis using old new by simp
next
  case False
  then obtain sender where s: "fst st i = Some sender" and m: "isMapped sender"
    and idle: "ConnectingIndex sender = i"
    and r: "senderStep inner i st = fold (pairStep i) (inner i) st"
    by (auto simp: senderStep_def split: option.splits if_splits)
  have s0: "cs0 i = Some sender" using rel s idle by (rule engine_rel_idle)
  have n: "(a, b) \<in> set (snd (fold (pairStep i) (inner i) st))" using new by (simp add: r)
  show ?thesis
    using rel s0 m idle old n by (rule fold_pairStep_eligible)
qed

lemma fold_senderStep_eligible:
  assumes "engine_rel cs0 (fst st)"
    and "\<And>a b. (a, b) \<in> set (snd st) \<Longrightarrow> eligible cs0 a b"
    and "(a, b) \<in> set (snd (fold (senderStep inner) ks st))"
  shows "eligible cs0 a b"
  using assms
proof (induction ks arbitrary: st)
  case Nil
  then show ?case by simp
next
  case (Cons k ks)
  have r: "engine_rel cs0 (fst (senderStep inner k st))"
    using Cons.prems(1) senderStep_rel by (rule engine_rel_trans)
  have e: "\<And>a b. (a, b) \<in> set (snd (senderStep inner k st)) \<Longrightarrow> eligible cs0 a b"
    using Cons.prems(1,2) by (rule senderStep_eligible)
  show ?case
    using r e
  proof (rule Cons.IH)
    show "(a, b) \<in> set (snd (fold (senderStep inner) ks (senderStep inner k st)))"
      using Cons.prems(3) by simp
  qed
qed

lemma pairClients_eligible:
  assumes "(a, b) \<in> set (snd (pairClients sch cs))"
  shows "eligible cs a b"
proof (rule fold_senderStep_eligible)
  show "engine_rel cs (fst (cs, []))" by (simp add: engine_rel_refl)
  show "\<And>a b. (a, b) \<in> set (snd (cs, [])) \<Longrightarrow> eligible cs a b" by simp
  show "(a, b) \<in> set (snd (fold (senderStep (range_inner sch)) (range_outer sch) (cs, [])))"
    using assms by (simp add: pairClients_def)
qed

section \<open>What an Init does to the session\<close>

lemma sendConnectRequests_rel:
  "engine_rel (Clients session) (Clients (fst (sendConnectRequests sch session)))"
  by (simp add: sendConnectRequests_def Let_def pairClients_rel)

lemma sendConnectRequests_fields:
  "Open (fst (sendConnectRequests sch session)) = Open session"
  "Version (fst (sendConnectRequests sch session)) = Version session"
  "SessionCookie (fst (sendConnectRequests sch session)) = SessionCookie session"
  by (simp_all add: sendConnectRequests_def Let_def)

lemma handleInit_accepted:
  assumes "accepted getString sch buffer session gameName sender"
  shows "engine_rel ((Clients session)(bytes buffer ! 1 \<mapsto> learned addr buffer gameName sender))
           (Clients (fst (handleInit getString sch addr buffer version session)))"
proof -
  let ?s' = "session\<lparr>Clients := (Clients session)(bytes buffer ! 1 \<mapsto> learned addr buffer gameName sender)\<rparr>"
  have "fst (handleInit getString sch addr buffer version session) = ?s'
      \<or> fst (handleInit getString sch addr buffer version session) = fst (sendConnectRequests sch ?s')"
    using assms
    by (auto simp: handleInit_def accepted_def learned_def Let_def not_less split: option.splits)
  then show ?thesis
  proof
    assume "fst (handleInit getString sch addr buffer version session) = ?s'"
    then show ?thesis by (simp add: engine_rel_refl)
  next
    assume "fst (handleInit getString sch addr buffer version session) = fst (sendConnectRequests sch ?s')"
    then show ?thesis using sendConnectRequests_rel [of ?s' sch] by simp
  qed
qed

lemma handleInit_rejected:
  assumes "\<And>gameName sender. \<not> accepted getString sch buffer session gameName sender"
  shows "fst (handleInit getString sch addr buffer version session) = session"
proof (cases "length (bytes buffer) < 10")
  case True
  then show ?thesis by (simp add: handleInit_def Let_def)
next
  case len: False
  show ?thesis
  proof (cases "getString (drop 9 (bytes buffer))")
    case None
    then show ?thesis using len by (simp add: handleInit_def Let_def)
  next
    case (Some gameName)
    have "\<not> accepted getString sch buffer session gameName
            (case Clients session (bytes buffer ! 1) of Some c \<Rightarrow> c
             | None \<Rightarrow> newClient (SessionCookie session) (bytes buffer ! 1))"
      by (rule assms)
    then show ?thesis
      using len Some
      by (auto simp: handleInit_def accepted_def Let_def not_less not_le split: option.splits)
  qed
qed

lemma handleInit_fields:
  "Open (fst (handleInit getString sch addr buffer version session)) = Open session"
  "Version (fst (handleInit getString sch addr buffer version session)) = Version session"
  "SessionCookie (fst (handleInit getString sch addr buffer version session)) = SessionCookie session"
  by (simp_all add: handleInit_def Let_def sendConnectRequests_fields split: option.splits)


lemma static_addresses: "static c' = static c \<Longrightarrow> addresses c' = addresses c"
  using static_fields(4,5,6) [of c' c] by (simp add: addresses_def)

lemma accepted_cases:
  assumes "accepted getString sch buffer session gameName sender"
  shows "Clients session (bytes buffer ! 1) = Some sender
     \<or> (Clients session (bytes buffer ! 1) = None \<and> sender = newClient (SessionCookie session) (bytes buffer ! 1))"
  using assms by (auto simp: accepted_def split: option.splits)

lemma learned_fields:
  "NegotiateIP (learned addr buffer gameName old) =
     (if bytes buffer ! 0 \<noteq> PortTypeGamePort then addr else NegotiateIP old)"
  "LocalIP (learned addr buffer gameName old) =
     (if be_uint16 (take 2 (drop 7 (bytes buffer))) \<noteq> 0
      then formatLocalIP (take 4 (drop 3 (bytes buffer))) (be_uint16 (take 2 (drop 7 (bytes buffer))))
      else LocalIP old)"
  "ServerIP (learned addr buffer gameName old) =
     (if bytes buffer ! 2 = 0 \<or> bytes buffer ! 0 = PortTypeGamePort then addr else ServerIP old)"
  "Index (learned addr buffer gameName old) = Index old"
  "Connected (learned addr buffer gameName old) = Connected old"
  "ConnectingIndex (learned addr buffer gameName old) = ConnectingIndex old"
  by (simp_all add: learned_def learnAddresses_def Let_def)

text \<open>
  Claim C8. An Init that passes every check of the handler, for the client \<open>old\<close> it finds
  or creates: afterwards the client under the packet's index has \<^verbatim>\<open>NegotiateIP\<close> equal to
  the source address when the port type is not the game port and as before otherwise,
  \<^verbatim>\<open>LocalIP\<close> equal to the reported local address when the local port is not 0 and as
  before otherwise, \<^verbatim>\<open>ServerIP\<close> equal to the source address when \<^verbatim>\<open>useGamePort\<close> is 0
  or the port type is the game port and as before otherwise. The address fields of every
  other client are as before.
\<close>

theorem init_address_fields:
  assumes ok: "accepted getString sch buffer session gameName old"
  shows "let b = bytes buffer;
             localPort = be_uint16 (take 2 (drop 7 b));
             session' = fst (handleInit getString sch addr buffer version session)
         in (\<exists>c'. Clients session' (b ! 1) = Some c' \<and>
               NegotiateIP c' = (if b ! 0 \<noteq> PortTypeGamePort then addr else NegotiateIP old) \<and>
               LocalIP c' = (if localPort \<noteq> 0 then formatLocalIP (take 4 (drop 3 b)) localPort
                             else LocalIP old) \<and>
               ServerIP c' = (if b ! 2 = 0 \<or> b ! 0 = PortTypeGamePort then addr else ServerIP old))
          \<and> (\<forall>k. k \<noteq> b ! 1 \<longrightarrow>
                map_option addresses (Clients session' k) = map_option addresses (Clients session k))"
proof -
  let ?l = "learned addr buffer gameName old"
  let ?m = "(Clients session)(bytes buffer ! 1 \<mapsto> ?l)"
  let ?s = "fst (handleInit getString sch addr buffer version session)"
  have rel: "engine_rel ?m (Clients ?s)"
    using ok by (rule handleInit_accepted)
  have "?m (bytes buffer ! 1) = Some ?l" by simp
  with rel have "\<exists>c'. Clients ?s (bytes buffer ! 1) = Some c' \<and> static c' = static ?l"
    by (rule engine_rel_Some)
  then obtain c' where c': "Clients ?s (bytes buffer ! 1) = Some c'" and st: "static c' = static ?l"
    by auto
  have f: "NegotiateIP c' = NegotiateIP ?l" "LocalIP c' = LocalIP ?l" "ServerIP c' = ServerIP ?l"
    using static_fields(4,5,6) [OF st] by simp_all
  have others: "map_option addresses (Clients ?s k) = map_option addresses (Clients session k)"
    if k: "k \<noteq> bytes buffer ! 1" for k
  proof (cases "Clients session k")
    case None
    then have "?m k = None" using k by simp
    with rel have "Clients ?s k = None" by (rule engine_rel_None)
    then show ?thesis using None by simp
  next
    case (Some c)
    then have "?m k = Some c" using k by simp
    with rel have "\<exists>d. Clients ?s k = Some d \<and> static d = static c"
      by (rule engine_rel_Some)
    then obtain d where d: "Clients ?s k = Some d" "static d = static c" by auto
    have "addresses d = addresses c" using d(2) by (rule static_addresses)
    then show ?thesis using Some d(1) by simp
  qed
  have 1: "\<exists>c'. Clients ?s (bytes buffer ! 1) = Some c' \<and>
            NegotiateIP c' = (if bytes buffer ! 0 \<noteq> PortTypeGamePort then addr else NegotiateIP old) \<and>
            LocalIP c' = (if be_uint16 (take 2 (drop 7 (bytes buffer))) \<noteq> 0
                          then formatLocalIP (take 4 (drop 3 (bytes buffer))) (be_uint16 (take 2 (drop 7 (bytes buffer))))
                          else LocalIP old) \<and>
            ServerIP c' = (if bytes buffer ! 2 = 0 \<or> bytes buffer ! 0 = PortTypeGamePort then addr else ServerIP old)"
    using c' f by (simp only: learned_fields) simp
  show ?thesis
    unfolding Let_def using 1 others by blast
qed

theorem init_address_fields_witness:
  "accepted cString (sample_order [] [1]) (payloadOf (sample_init 1 1 0 mkwii)) (newSession 3 7)
      ''mkwii'' (newClient 7 1)
   \<and> map_option addresses
        (Clients (fst (handleInit cString (sample_order [] [1]) ''10.0.0.1:1''
                         (payloadOf (sample_init 1 1 0 mkwii)) 3 (newSession 3 7))) 1)
       = Some (''10.0.0.1:1'', ''10.0.0.1:8080'', ''10.0.0.1:1'')"
proof -
  have h: "accepted cString (sample_order [] [1]) (payloadOf (sample_init 1 1 0 mkwii)) (newSession 3 7)
      ''mkwii'' (newClient 7 1)"
    by (simp add: accepted_def sample_defs codec_defs)
  have b: "bytes (payloadOf (sample_init 1 1 0 mkwii)) = [1, 1, 0, 10, 0, 0, 1, 0x1F, 0x90] @ mkwii"
    by (simp add: sample_defs codec_defs)
  have "\<exists>c'. Clients (fst (handleInit cString (sample_order [] [1]) ''10.0.0.1:1''
                         (payloadOf (sample_init 1 1 0 mkwii)) 3 (newSession 3 7))) 1 = Some c' \<and>
          NegotiateIP c' = ''10.0.0.1:1'' \<and> LocalIP c' = ''10.0.0.1:8080'' \<and> ServerIP c' = ''10.0.0.1:1''"
    using init_address_fields [OF h, of "''10.0.0.1:1''" 3] unfolding Let_def b
    by (simp add: mkwii_def be_uint16_def formatLocalIP_def decimal.simps digit_def char_of_def
          bit_Suc_0_iff)
  then show ?thesis using h by (auto simp: addresses_def)
qed

section \<open>Mapped clients stay mapped\<close>

lemma learned_mapped:
  assumes "addr \<noteq> []" "isMapped c"
  shows "isMapped (learned addr buffer gameName c)"
  using assms by (auto simp: learned_def learnAddresses_def isMapped_def Let_def split: if_splits)

lemma handleInit_mapped:
  assumes addr: "addr \<noteq> []" and c: "Clients session i = Some c" and m: "isMapped c"
  shows "\<exists>c'. Clients (fst (handleInit getString sch addr buffer version session)) i = Some c' \<and> isMapped c'"
proof (cases "\<exists>gameName sender. accepted getString sch buffer session gameName sender")
  case False
  then have "\<And>gameName sender. \<not> accepted getString sch buffer session gameName sender"
    by simp
  then have "fst (handleInit getString sch addr buffer version session) = session"
    by (rule handleInit_rejected)
  then show ?thesis using c m by simp
next
  case True
  then obtain gameName sender where ok: "accepted getString sch buffer session gameName sender"
    by blast
  let ?l = "learned addr buffer gameName sender"
  let ?m = "(Clients session)(bytes buffer ! 1 \<mapsto> ?l)"
  have rel: "engine_rel ?m (Clients (fst (handleInit getString sch addr buffer version session)))"
    using ok by (rule handleInit_accepted)
  have "\<exists>d. ?m i = Some d \<and> isMapped d"
  proof (cases "i = bytes buffer ! 1")
    case True
    then have "sender = c" using accepted_cases [OF ok] c by auto
    then show ?thesis using True addr m by (simp add: learned_mapped)
  next
    case False
    then show ?thesis using c m by simp
  qed
  then obtain d where d: "?m i = Some d" "isMapped d" by blast
  from rel d(1) have "\<exists>c'. Clients (fst (handleInit getString sch addr buffer version session)) i = Some c'
     \<and> static c' = static d"
    by (rule engine_rel_Some)
  then obtain c' where
    c': "Clients (fst (handleInit getString sch addr buffer version session)) i = Some c'"
    "static c' = static d"
    by auto
  have "isMapped c' = isMapped d" using c'(2) by (rule static_isMapped)
  then show ?thesis using d(2) c'(1) by simp
qed

lemma handleInits_mapped:
  assumes "\<forall>p \<in> set ps. fst (snd p) \<noteq> []" "Clients session i = Some c" "isMapped c"
  shows "\<exists>c'. Clients (handleInits getString ps version session) i = Some c' \<and> isMapped c'"
  using assms
proof (induction ps arbitrary: session c)
  case Nil
  then show ?case by simp
next
  case (Cons p ps)
  have "fst (snd p) \<noteq> []" using Cons.prems(1) by simp
  then have "\<exists>d. Clients (fst (handleInit getString (fst p) (fst (snd p)) (snd (snd p)) version session)) i = Some d
     \<and> isMapped d"
    using Cons.prems(2,3) by (rule handleInit_mapped)
  then obtain d where
    d: "Clients (fst (handleInit getString (fst p) (fst (snd p)) (snd (snd p)) version session)) i = Some d"
      "isMapped d"
    by auto
  have "\<forall>p \<in> set ps. fst (snd p) \<noteq> []" using Cons.prems(1) by simp
  then have "\<exists>c'. Clients (handleInits getString ps version
       (fst (handleInit getString (fst p) (fst (snd p)) (snd (snd p)) version session))) i = Some c' \<and> isMapped c'"
    using d by (rule Cons.IH)
  then show ?case by simp
qed

text \<open>
  Claim C9. A client is mapped exactly when its \<^verbatim>\<open>NegotiateIP\<close> and its \<^verbatim>\<open>ServerIP\<close> are
  both non-empty; and a client that is mapped stays mapped, with both fields non-empty,
  through any sequence of Init packets handled for its session. The source address of a
  packet is the text \<^verbatim>\<open>addr.String()\<close> of a UDP address, which is never empty.
\<close>

theorem mapped_is_monotone:
  assumes "\<forall>p \<in> set ps. fst (snd p) \<noteq> []"
  shows "(isMapped c \<longleftrightarrow> NegotiateIP c \<noteq> [] \<and> ServerIP c \<noteq> []) \<and>
         (Clients session i = Some c \<and> isMapped c \<longrightarrow>
            (\<exists>c'. Clients (handleInits getString ps version session) i = Some c' \<and> isMapped c'
                  \<and> NegotiateIP c' \<noteq> [] \<and> ServerIP c' \<noteq> []))"
proof -
  have 1: "isMapped c \<longleftrightarrow> NegotiateIP c \<noteq> [] \<and> ServerIP c \<noteq> []" for c
    by (simp add: isMapped_def)
  have 2: "\<exists>c'. Clients (handleInits getString ps version session) i = Some c' \<and> isMapped c'
                  \<and> NegotiateIP c' \<noteq> [] \<and> ServerIP c' \<noteq> []"
    if "Clients session i = Some c" "isMapped c"
  proof -
    from handleInits_mapped [OF assms that] obtain c' where
      "Clients (handleInits getString ps version session) i = Some c'" "isMapped c'"
      by auto
    then show ?thesis using 1 [of c'] by simp
  qed
  show ?thesis using 1 [of c] 2 by simp
qed

theorem mapped_is_monotone_witness:
  "''10.0.0.9:9'' \<noteq> [] \<and> Clients sample_session 1 = Some (mapped_client 1 ''10.0.0.1:1'')
   \<and> isMapped (mapped_client 1 ''10.0.0.1:1'')
   \<and> (\<exists>c'. Clients (handleInits cString
                [(sample_order [] [1], ''10.0.0.9:9'', payloadOf (sample_init 1 1 1 mkwii))] 3
                sample_session) 1 = Some c' \<and> isMapped c' \<and> NegotiateIP c' \<noteq> [] \<and> ServerIP c' \<noteq> [])"
proof -
  have h: "\<forall>p \<in> set [(sample_order [] [1], ''10.0.0.9:9'', payloadOf (sample_init 1 1 1 mkwii))].
             fst (snd p) \<noteq> []"
    by simp
  have c: "Clients sample_session 1 = Some (mapped_client 1 ''10.0.0.1:1'')"
    by (simp add: sample_session_def)
  have m: "isMapped (mapped_client 1 ''10.0.0.1:1'')"
    by (simp add: isMapped_def mapped_client_def)
  show ?thesis
    using mapped_is_monotone [OF h, of "mapped_client 1 ''10.0.0.1:1''" sample_session 1 cString 3] c m
    by simp
qed

section \<open>Keys and indexes\<close>

lemma keysAreIndexes_engine:
  assumes rel: "engine_rel cs cs'" and inv: "\<And>i c. cs i = Some c \<Longrightarrow> Index c = i"
    and c': "cs' i = Some c'"
  shows "Index c' = i"
proof (cases "cs i")
  case None
  with rel have "cs' i = None" by (rule engine_rel_None)
  with c' show ?thesis by simp
next
  case (Some c)
  with rel have "\<exists>d. cs' i = Some d \<and> static d = static c" by (rule engine_rel_Some)
  with c' have "static c' = static c" by auto
  then have "Index c' = Index c" by (rule static_fields(2))
  then show ?thesis using inv [OF Some] by simp
qed

lemma keysAreIndexes_sendConnectRequests:
  assumes "keysAreIndexes session"
  shows "keysAreIndexes (fst (sendConnectRequests sch session))"
  unfolding keysAreIndexes_def
proof (intro allI impI)
  fix i c
  assume c: "Clients (fst (sendConnectRequests sch session)) i = Some c"
  have inv: "\<And>i c. Clients session i = Some c \<Longrightarrow> Index c = i"
    using assms by (simp add: keysAreIndexes_def)
  show "Index c = i"
    using sendConnectRequests_rel inv c by (rule keysAreIndexes_engine)
qed

lemma keysAreIndexes_handleInit:
  assumes "keysAreIndexes session"
  shows "keysAreIndexes (fst (handleInit getString sch addr buffer version session))"
proof (cases "\<exists>gameName sender. accepted getString sch buffer session gameName sender")
  case False
  then have "\<And>gameName sender. \<not> accepted getString sch buffer session gameName sender"
    by simp
  then have "fst (handleInit getString sch addr buffer version session) = session"
    by (rule handleInit_rejected)
  then show ?thesis using assms by simp
next
  case True
  then obtain gameName sender where ok: "accepted getString sch buffer session gameName sender"
    by blast
  let ?l = "learned addr buffer gameName sender"
  let ?m = "(Clients session)(bytes buffer ! 1 \<mapsto> ?l)"
  have rel: "engine_rel ?m (Clients (fst (handleInit getString sch addr buffer version session)))"
    using ok by (rule handleInit_accepted)
  have old: "\<And>i c. Clients session i = Some c \<Longrightarrow> Index c = i"
    using assms by (simp add: keysAreIndexes_def)
  have "Index sender = bytes buffer ! 1"
    using accepted_cases [OF ok] old by (auto simp: newClient_def)
  then have inv: "\<And>i c. ?m i = Some c \<Longrightarrow> Index c = i"
    using old by (auto simp: learned_fields split: if_splits)
  show ?thesis
    unfolding keysAreIndexes_def
  proof (intro allI impI)
    fix i c
    assume "Clients (fst (handleInit getString sch addr buffer version session)) i = Some c"
    with rel inv show "Index c = i" by (rule keysAreIndexes_engine)
  qed
qed

lemma keysAreIndexes_handleConnectReply:
  assumes "keysAreIndexes session" "handleConnectReply buffer session = Inr r"
  shows "keysAreIndexes (fst r)"
  using assms
  by (auto simp: handleConnectReply_def keysAreIndexes_def split: sum.splits option.splits if_splits)

lemma keysAreIndexes_recordReport:
  assumes "keysAreIndexes session"
  shows "keysAreIndexes (recordReport clientIndex session)"
  using assms
  by (auto simp: recordReport_def keysAreIndexes_def split: option.splits if_splits)

lemma keysAreIndexes_handleReport:
  assumes "keysAreIndexes session" "handleReport sch addr buffer version session = Inr r"
  shows "keysAreIndexes (fst r)"
proof -
  from assms(2) obtain clientIndex where
    "fst r = fst (sendConnectRequests sch (recordReport clientIndex session))"
    by (auto simp: handleReport_def Let_def split: sum.splits)
  then show ?thesis
    using keysAreIndexes_sendConnectRequests [OF keysAreIndexes_recordReport [OF assms(1)]]
    by simp
qed

lemma keysAreIndexes_dispatch:
  assumes "keysAreIndexes session"
    "dispatch getString sch addr pl version command session = Inr r"
  shows "keysAreIndexes (fst r)"
proof (cases "command = NNInitRequest")
  case True
  then have "r = handleInit getString sch addr pl version session"
    using assms(2) by (simp add: dispatch_def)
  then show ?thesis using keysAreIndexes_handleInit [OF assms(1)] by simp
next
  case init: False
  show ?thesis
  proof (cases "command = NNConnectReply")
    case True
    then have "handleConnectReply pl session = Inr r"
      using assms(2) by (simp add: dispatch_def)
    with assms(1) show ?thesis by (rule keysAreIndexes_handleConnectReply)
  next
    case reply: False
    show ?thesis
    proof (cases "command = NNReportRequest")
      case True
      then have "handleReport sch addr pl version session = Inr r"
        using assms(2) by (simp add: dispatch_def)
      with assms(1) show ?thesis by (rule keysAreIndexes_handleReport)
    next
      case False
      then have "r = (session, [])"
        using assms(2) init reply by (simp add: dispatch_def)
      then show ?thesis using assms(1) by simp
    qed
  qed
qed

lemma keysAreIndexes_newSession: "keysAreIndexes (newSession version cookie)"
  by (simp add: keysAreIndexes_def newSession_def)

lemma registry_findSession:
  assumes "registryKeysAreIndexes st"
  shows "registryKeysAreIndexes (snd (findSession version cookie addr st))"
    and "keysAreIndexes (fst (findSession version cookie addr st))"
  using assms
  by (auto simp: findSession_def registryKeysAreIndexes_def keysAreIndexes_newSession
           split: option.splits)

lemma registry_handleConnection:
  assumes inv: "registryKeysAreIndexes st"
    and r: "handleConnection getString sch addr buffer st = Inr r"
  shows "registryKeysAreIndexes (fst r)"
proof -
  define cookie where "cookie = be_uint32 (take 4 (drop 8 (store buffer)))"
  define version where "version = store buffer ! 6"
  define command where "command = store buffer ! 7"
  define found where "found = findSession version cookie addr st"
  have st': "registryKeysAreIndexes (snd found)" and session: "keysAreIndexes (fst found)"
    unfolding found_def using inv by (rule registry_findSession)+
  have eq: "handleConnection getString sch addr buffer st =
     (if len buffer < 12 \<or> take 6 (bytes buffer) \<noteq> magic then Inr (st, [])
      else if command \<noteq> NNNatifyRequest \<and> command \<noteq> NNAddressCheckRequest then
             if Version (fst found) \<noteq> version then Inr (snd found, [])
             else
               (case slice_from buffer 12 of
                  Inl p \<Rightarrow> Inl p
                | Inr pl \<Rightarrow>
                    (case dispatch getString sch addr pl version command (fst found) of
                       Inl p \<Rightarrow> Inl p
                     | Inr d \<Rightarrow>
                         Inr ((snd found)\<lparr>sessions := (sessions (snd found))(cookie \<mapsto> fst d)\<rparr>,
                              snd d)))
           else Inr (st, []))"
    unfolding handleConnection_def Let_def cookie_def version_def command_def found_def ..
  show ?thesis
  proof (cases "len buffer < 12 \<or> take 6 (bytes buffer) \<noteq> magic
                 \<or> \<not> (command \<noteq> NNNatifyRequest \<and> command \<noteq> NNAddressCheckRequest)")
    case True
    then have "r = (st, [])" using r unfolding eq by (auto split: if_splits)
    then show ?thesis using inv by simp
  next
    case ok: False
    show ?thesis
    proof (cases "Version (fst found) \<noteq> version")
      case True
      then have "r = (snd found, [])" using r ok unfolding eq by (simp split: if_splits)
      then show ?thesis using st' by simp
    next
      case False
      with r ok obtain pl d where
        d: "dispatch getString sch addr pl version command (fst found) = Inr d"
        and e: "r = ((snd found)\<lparr>sessions := (sessions (snd found))(cookie \<mapsto> fst d)\<rparr>, snd d)"
        unfolding eq by (auto split: if_splits sum.splits)
      have "keysAreIndexes (fst d)" using session d by (rule keysAreIndexes_dispatch)
      then show ?thesis
        using st' unfolding e by (simp add: registryKeysAreIndexes_def)
    qed
  qed
qed

lemma registry_expire:
  assumes "registryKeysAreIndexes st"
  shows "registryKeysAreIndexes (fst (expire ks t st))"
  using assms by (auto simp: expire_def registryKeysAreIndexes_def split: option.splits if_splits)

lemma registry_step:
  assumes "registryKeysAreIndexes st" "step getString x st = Inr r"
  shows "registryKeysAreIndexes (fst r)"
proof (cases x)
  case (Receive sch addr buffer)
  then have "handleConnection getString sch addr buffer st = Inr r" using assms(2) by simp
  with assms(1) show ?thesis by (rule registry_handleConnection)
next
  case (Fire ks t)
  then have "r = expire ks t st" using assms(2) by simp
  then show ?thesis using registry_expire [OF assms(1)] by simp
qed

lemma registry_run:
  assumes "registryKeysAreIndexes st" "run getString xs st = Inr r"
  shows "registryKeysAreIndexes (fst r)"
  using assms
proof (induction xs arbitrary: st r)
  case Nil
  then show ?case by auto
next
  case (Cons x xs)
  from Cons.prems(2) obtain r1 r2 where
    1: "step getString x st = Inr r1" and 2: "run getString xs (fst r1) = Inr r2"
    and 3: "fst r = fst r2"
    by (auto split: sum.splits)
  have "registryKeysAreIndexes (fst r1)" using Cons.prems(1) 1 by (rule registry_step)
  then have "registryKeysAreIndexes (fst r2)" using 2 by (rule Cons.IH)
  then show ?case using 3 by simp
qed

lemma registry_initial: "registryKeysAreIndexes initial"
  by (simp add: registryKeysAreIndexes_def initial_def)

lemma recordReport_idle:
  assumes "Clients session i = Some c" "Index c = i"
  shows "\<exists>c'. Clients (recordReport i session) i = Some c' \<and> ConnectingIndex c' = Index c'"
  using assms by (simp add: recordReport_def)

text \<open>
  Claim C10. In every state the server reaches from the empty registry, by datagrams
  and timers in any order and with any order of iteration, every key of every session's
  client map is the \<^verbatim>\<open>Index\<close> of the client stored under it. So the assignment of the
  packet's client index to \<^verbatim>\<open>ConnectingIndex\<close> in the Report handler leaves the
  reporting client idle: its \<^verbatim>\<open>ConnectingIndex\<close> is its own \<^verbatim>\<open>Index\<close>.
\<close>

theorem keys_are_indexes:
  assumes run: "run getString xs initial = Inr (st, evs)"
    and session: "sessions st cookie = Some session"
    and client: "Clients session i = Some c"
  shows "Index c = i \<and>
         (\<exists>c'. Clients (recordReport i session) i = Some c' \<and> ConnectingIndex c' = Index c')"
proof -
  have "registryKeysAreIndexes (fst (st, evs))"
    using registry_initial run by (rule registry_run)
  then have "keysAreIndexes session"
    using session by (simp add: registryKeysAreIndexes_def)
  then have i: "Index c = i" using client by (simp add: keysAreIndexes_def)
  with client show ?thesis using recordReport_idle by simp
qed

theorem keys_are_indexes_witness:
  "run cString [Receive (sample_order [] [1]) ''10.0.0.1:1'' (readFrom (sample_init 1 1 0 mkwii))] initial
     = Inr (sample_server, [WriteTo ''10.0.0.1:1'' (init_reply 1)])
   \<and> sessions sample_server 7 = Some sample_session
   \<and> Clients sample_session 1 = Some (mapped_client 1 ''10.0.0.1:1'')
   \<and> Index (mapped_client 1 ''10.0.0.1:1'') = 1
   \<and> (\<exists>c'. Clients (recordReport 1 sample_session) 1 = Some c' \<and> ConnectingIndex c' = Index c')"
proof -
  have r: "run cString [Receive (sample_order [] [1]) ''10.0.0.1:1'' (readFrom (sample_init 1 1 0 mkwii))] initial
     = Inr (sample_server, [WriteTo ''10.0.0.1:1'' (init_reply 1)])"
    by (simp add: observer_defs sample_defs codec_defs handler_defs)
  have s: "sessions sample_server 7 = Some sample_session" by (simp add: sample_server_def)
  have c: "Clients sample_session 1 = Some (mapped_client 1 ''10.0.0.1:1'')"
    by (simp add: sample_session_def)
  show ?thesis using keys_are_indexes [OF r s c] r s c by simp
qed

section \<open>Which clients the engine pairs\<close>

text \<open>
  Claim C5, as the code has it. Every retry task the engine starts is for a sender \<open>a\<close>
  and a destination \<open>b\<close> that were, when the engine was called, two different clients,
  both mapped and idle, with \<open>a\<close> not recorded in the connected set of \<open>b\<close>. The connected
  set of the sender is not read.
\<close>

theorem pairs_are_eligible:
  assumes "GoRetry c a b \<in> set (snd (sendConnectRequests sch session))"
  shows "eligible (Clients session) a b"
proof -
  from assms have "(a, b) \<in> set (snd (pairClients sch (Clients session)))"
    by (auto simp: sendConnectRequests_def Let_def)
  then show ?thesis by (rule pairClients_eligible)
qed

theorem pairs_are_eligible_witness:
  "GoRetry 7 1 2 \<in> set (snd (sendConnectRequests (sample_order [] [1, 2]) sample_pair))
   \<and> eligible (Clients sample_pair) 1 2"
proof -
  have h: "GoRetry 7 1 2 \<in> set (snd (sendConnectRequests (sample_order [] [1, 2]) sample_pair))"
    by (simp add: session_defs sample_defs handler_defs)
  show ?thesis using pairs_are_eligible [OF h] h by simp
qed

text \<open>
  The claim as stated fails. The first client has reported twice, its second partner was
  the third client, which has reported its own partner, the second client. The engine now
  pairs the first with the third, which is in the connected set of the first.
\<close>

theorem pairing_ignores_senders_connected_set:
  "GoRetry 7 1 3 \<in> set (snd (sendConnectRequests (sample_order [] [1, 2, 3]) lopsided_trio))
   \<and> Clients lopsided_trio 1
       = Some ((mapped_client 1 ''10.0.0.1:1'')\<lparr>Connected := [2 \<mapsto> True, 3 \<mapsto> True]\<rparr>)
   \<and> connected ((mapped_client 1 ''10.0.0.1:1'')\<lparr>Connected := [2 \<mapsto> True, 3 \<mapsto> True]\<rparr>) 3"
  by (simp add: session_defs sample_defs handler_defs)

text \<open>
  The server reaches that session: six datagrams lead to \<open>after_six\<close>, and a Report of the
  third client then calls the engine on \<open>lopsided_trio\<close>.
\<close>

lemma after_six_reached:
  "sessionOf 7 (run cString first_reports_again initial) = Some after_six"
  by (simp add: observer_defs session_defs sample_defs codec_defs handler_defs)

lemma lopsided_trio_reached: "recordReport 3 after_six = lopsided_trio"
  by (simp add: session_defs recordReport_def sample_defs codec_defs fun_upd_twist)

section \<open>A sender paired twice\<close>

text \<open>
  Claim C6 fails on the code: the inner loop goes on after it has paired the sender.
  Two clients are connected to each other and idle when a third one joins; the engine
  reaches the third first and pairs it with both. It starts two retry tasks with the
  third as sender, the first and the second both point at the third, and the third
  points at the second only.
\<close>

theorem sender_paired_twice:
  "map_option ConnectingIndex (clientOf 7 1 (run cString third_joins initial)) = Some 3
   \<and> map_option ConnectingIndex (clientOf 7 2 (run cString third_joins initial)) = Some 3
   \<and> map_option ConnectingIndex (clientOf 7 3 (run cString third_joins initial)) = Some 2
   \<and> GoRetry 7 3 1 \<in> set (eventsOf (run cString third_joins initial))
   \<and> GoRetry 7 3 2 \<in> set (eventsOf (run cString third_joins initial))"
  by (simp add: observer_defs sample_defs codec_defs handler_defs)

section \<open>Reports\<close>

lemma sendConnectRequests_Connected:
  assumes "Clients session x = Some c"
  shows "\<exists>c'. Clients (fst (sendConnectRequests sch session)) x = Some c' \<and> Connected c' = Connected c"
proof -
  have "\<exists>c'. Clients (fst (sendConnectRequests sch session)) x = Some c' \<and> static c' = static c"
    using sendConnectRequests_rel assms by (rule engine_rel_Some)
  then obtain c' where c': "Clients (fst (sendConnectRequests sch session)) x = Some c'"
    "static c' = static c" by auto
  have "Connected c' = Connected c" using c'(2) by (rule static_fields(3))
  then show ?thesis using c'(1) by simp
qed

lemma handleReport_Connected:
  assumes c: "Clients session x = Some c"
    and x: "index buffer 1 = Inr x"
    and r: "handleReport sch addr buffer version session = Inr r"
  shows "\<exists>c'. Clients (fst r) x = Some c' \<and>
           Connected c' = (Connected c)(ConnectingIndex c \<mapsto> True)"
proof -
  let ?c = "c\<lparr>Connected := (Connected c)(ConnectingIndex c \<mapsto> True),
              ConnectingIndex := x, ConnectAck := False\<rparr>"
  have 1: "fst r = fst (sendConnectRequests sch (recordReport x session))"
    using r x by (auto simp: handleReport_def Let_def split: sum.splits)
  have 2: "Clients (recordReport x session) x = Some ?c"
    using c by (simp add: recordReport_def)
  show ?thesis
    using sendConnectRequests_Connected [OF 2, of sch] unfolding 1 by simp
qed

text \<open>
  Claim C7, as the code has it. A Report for a registered client \<open>x\<close> adds the
  \<^verbatim>\<open>ConnectingIndex\<close> the client has at that moment to its connected set and keeps every
  entry. The same Report handled again adds the \<^verbatim>\<open>ConnectingIndex\<close> the client has after
  the first one: its own index, or its new partner when the engine has paired it again.
\<close>

theorem report_adds_connecting_index:
  assumes c: "Clients session x = Some c"
    and x: "index buffer 1 = Inr x"
    and r1: "handleReport sch addr buffer version session = Inr (session1, evs1)"
    and r2: "handleReport sch' addr buffer version session1 = Inr (session2, evs2)"
  shows "\<exists>c1 c2. Clients session1 x = Some c1 \<and> Clients session2 x = Some c2 \<and>
           Connected c1 = (Connected c)(ConnectingIndex c \<mapsto> True) \<and>
           Connected c2 = (Connected c1)(ConnectingIndex c1 \<mapsto> True)"
proof -
  from handleReport_Connected [OF c x r1] obtain c1 where
    c1: "Clients session1 x = Some c1" "Connected c1 = (Connected c)(ConnectingIndex c \<mapsto> True)"
    by auto
  from handleReport_Connected [OF c1(1) x r2] obtain c2 where
    c2: "Clients session2 x = Some c2" "Connected c2 = (Connected c1)(ConnectingIndex c1 \<mapsto> True)"
    by auto
  show ?thesis using c1 c2 by blast
qed

theorem report_adds_connecting_index_witness:
  "Clients paired_pair 1 = Some ((mapped_client 1 ''10.0.0.1:1'')\<lparr>ConnectingIndex := 2\<rparr>)
   \<and> index (payloadOf (sample_report 1)) 1 = Inr 1
   \<and> handleReport (sample_order [] [1, 2]) ''10.0.0.1:1'' (payloadOf (sample_report 1)) 3 paired_pair
       = Inr (reported_once, [WriteTo ''10.0.0.1:1'' (report_reply 1)])
   \<and> handleReport (sample_order [] [1, 2]) ''10.0.0.1:1'' (payloadOf (sample_report 1)) 3 reported_once
       = Inr (reported_twice, [WriteTo ''10.0.0.1:1'' (report_reply 1)])
   \<and> (\<exists>c1 c2. Clients reported_once 1 = Some c1 \<and> Clients reported_twice 1 = Some c2 \<and>
          Connected c1 = (Connected ((mapped_client 1 ''10.0.0.1:1'')\<lparr>ConnectingIndex := 2\<rparr>))
                           (ConnectingIndex ((mapped_client 1 ''10.0.0.1:1'')\<lparr>ConnectingIndex := 2\<rparr>) \<mapsto> True) \<and>
          Connected c2 = (Connected c1)(ConnectingIndex c1 \<mapsto> True))"
proof -
  have c: "Clients paired_pair 1 = Some ((mapped_client 1 ''10.0.0.1:1'')\<lparr>ConnectingIndex := 2\<rparr>)"
    by (simp add: paired_pair_def)
  have x: "index (payloadOf (sample_report 1)) 1 = Inr 1"
    by (simp add: sample_defs codec_defs)
  have r1: "handleReport (sample_order [] [1, 2]) ''10.0.0.1:1'' (payloadOf (sample_report 1)) 3 paired_pair
     = Inr (reported_once, [WriteTo ''10.0.0.1:1'' (report_reply 1)])"
    by (simp add: session_defs observer_defs sample_defs codec_defs handler_defs)
  have r2: "handleReport (sample_order [] [1, 2]) ''10.0.0.1:1'' (payloadOf (sample_report 1)) 3 reported_once
     = Inr (reported_twice, [WriteTo ''10.0.0.1:1'' (report_reply 1)])"
    by (simp add: session_defs observer_defs sample_defs codec_defs handler_defs)
  show ?thesis
    using report_adds_connecting_index [OF c x r1 r2] c x r1 r2 by simp
qed

text \<open>
  The claim as stated fails: two clients are paired, the first reports twice. The first
  Report records the second client, the second Report records the first client itself.
\<close>

theorem duplicate_report_adds_own_index:
  "handleReport (sample_order [] [1, 2]) ''10.0.0.1:1'' (payloadOf (sample_report 1)) 3 paired_pair
     = Inr (reported_once, [WriteTo ''10.0.0.1:1'' (report_reply 1)])
   \<and> handleReport (sample_order [] [1, 2]) ''10.0.0.1:1'' (payloadOf (sample_report 1)) 3 reported_once
     = Inr (reported_twice, [WriteTo ''10.0.0.1:1'' (report_reply 1)])
   \<and> map_option connectedSet (Clients reported_once 1) \<noteq> map_option connectedSet (Clients reported_twice 1)"
proof -
  have 1: "handleReport (sample_order [] [1, 2]) ''10.0.0.1:1'' (payloadOf (sample_report 1)) 3 paired_pair
     = Inr (reported_once, [WriteTo ''10.0.0.1:1'' (report_reply 1)])"
    by (simp add: session_defs observer_defs sample_defs codec_defs handler_defs)
  have 2: "handleReport (sample_order [] [1, 2]) ''10.0.0.1:1'' (payloadOf (sample_report 1)) 3 reported_once
     = Inr (reported_twice, [WriteTo ''10.0.0.1:1'' (report_reply 1)])"
    by (simp add: session_defs observer_defs sample_defs codec_defs handler_defs)
  have "1 \<notin> connectedSet ((mapped_client 1 ''10.0.0.1:1'')\<lparr>Connected := [2 \<mapsto> True]\<rparr>)"
    by (simp add: connectedSet_def connected_def)
  moreover have "1 \<in> connectedSet ((mapped_client 1 ''10.0.0.1:1'')\<lparr>Connected := [2 \<mapsto> True, 1 \<mapsto> True]\<rparr>)"
    by (simp add: connectedSet_def connected_def)
  ultimately have "connectedSet ((mapped_client 1 ''10.0.0.1:1'')\<lparr>Connected := [2 \<mapsto> True]\<rparr>)
      \<noteq> connectedSet ((mapped_client 1 ''10.0.0.1:1'')\<lparr>Connected := [2 \<mapsto> True, 1 \<mapsto> True]\<rparr>)"
    by (metis (no_types))
  then have 3: "map_option connectedSet (Clients reported_once 1) \<noteq> map_option connectedSet (Clients reported_twice 1)"
    by (simp add: reported_once_def reported_twice_def)
  show ?thesis using 1 2 3 by simp
qed

text \<open>The server reaches \<open>paired_pair\<close>: it is the session after the two clients have joined.\<close>

lemma paired_pair_reached: "sessionOf 7 (run cString two_join initial) = Some paired_pair"
  by (simp add: observer_defs session_defs sample_defs codec_defs handler_defs)

section \<open>Commands without a handler\<close>

text \<open>
  Claim C2, as the code has it. A datagram with a good header whose command is not Init,
  ConnectReply or Report causes no event, and leaves every session as it is. The
  registry is as before when the command is one of the two probes (natify, address check)
  or the cookie has a session. For any other command and a cookie without a session, an
  open session with no clients and the datagram's version is stored under the cookie, and
  its timer is armed.
\<close>

theorem other_commands:
  assumes header: "\<not> (len buffer < 12 \<or> take 6 (bytes buffer) \<noteq> magic)"
    and command: "store buffer ! 7 \<noteq> NNInitRequest" "store buffer ! 7 \<noteq> NNConnectReply"
      "store buffer ! 7 \<noteq> NNReportRequest"
  shows "handleConnection getString sch addr buffer st =
     Inr (let version = store buffer ! 6;
              command = store buffer ! 7;
              cookie = be_uint32 (take 4 (drop 8 (store buffer)))
          in if command = NNNatifyRequest \<or> command = NNAddressCheckRequest
                \<or> sessions st cookie \<noteq> None
             then st
             else st\<lparr>sessions := (sessions st)(cookie \<mapsto> newSession version cookie),
                     timers := timers st @ [\<lparr>t_cookie = cookie, t_version = version, t_addr = addr\<rparr>]\<rparr>,
          [])"
proof -
  define cookie where "cookie = be_uint32 (take 4 (drop 8 (store buffer)))"
  define version where "version = store buffer ! 6"
  define command where "command = store buffer ! 7"
  define found where "found = findSession version cookie addr st"
  have stored: "sessions (snd found) cookie = Some (fst found)"
    by (simp add: found_def findSession_def split: option.splits)
  then have kept: "(snd found)\<lparr>sessions := (sessions (snd found))(cookie \<mapsto> fst found)\<rparr> = snd found"
    by (simp add: fun_upd_idem)
  have snd_found: "snd found =
      (if sessions st cookie \<noteq> None then st
       else st\<lparr>sessions := (sessions st)(cookie \<mapsto> newSession version cookie),
               timers := timers st @ [\<lparr>t_cookie = cookie, t_version = version, t_addr = addr\<rparr>]\<rparr>)"
    by (auto simp: found_def findSession_def split: option.splits)
  have payload: "slice_from buffer 12 = Inr (Slice (drop 12 (store buffer)) (len buffer - 12))"
    using header by (simp add: slice_from_def)
  have dispatch: "dispatch getString sch addr pl version command (fst found) = Inr (fst found, [])" for pl
    using command by (simp add: dispatch_def command_def)
  have "handleConnection getString sch addr buffer st =
     Inr (if command = NNNatifyRequest \<or> command = NNAddressCheckRequest then st else snd found, [])"
    unfolding handleConnection_def Let_def cookie_def [symmetric] version_def [symmetric]
      command_def [symmetric] found_def [symmetric]
    using header by (simp add: payload dispatch kept)
  then show ?thesis
    unfolding Let_def cookie_def [symmetric] version_def [symmetric] command_def [symmetric]
    by (simp add: snd_found)
qed

theorem other_commands_witness:
  "\<not> (len (readFrom (sample_header 0x42)) < 12 \<or> take 6 (bytes (readFrom (sample_header 0x42))) \<noteq> magic)
   \<and> store (readFrom (sample_header 0x42)) ! 7 \<noteq> NNInitRequest
   \<and> store (readFrom (sample_header 0x42)) ! 7 \<noteq> NNConnectReply
   \<and> store (readFrom (sample_header 0x42)) ! 7 \<noteq> NNReportRequest
   \<and> handleConnection cString (sample_order [] []) ''10.0.0.2:2'' (readFrom (sample_header 0x42)) sample_server
       = Inr (sample_server, [])"
proof -
  have h: "\<not> (len (readFrom (sample_header 0x42)) < 12 \<or> take 6 (bytes (readFrom (sample_header 0x42))) \<noteq> magic)"
    by (simp add: sample_defs codec_defs)
  have c: "store (readFrom (sample_header 0x42)) ! 7 \<noteq> NNInitRequest"
    "store (readFrom (sample_header 0x42)) ! 7 \<noteq> NNConnectReply"
    "store (readFrom (sample_header 0x42)) ! 7 \<noteq> NNReportRequest"
    by (simp_all add: sample_defs)
  have "handleConnection cString (sample_order [] []) ''10.0.0.2:2'' (readFrom (sample_header 0x42)) sample_server
       = Inr (sample_server, [])"
    using other_commands [OF h c, of cString "sample_order [] []" "''10.0.0.2:2''" sample_server]
    by (simp add: Let_def sample_server_def sample_defs codec_defs)
  then show ?thesis using h c by simp
qed

text \<open>
  The claim as stated fails: a datagram with the command byte 0x42 and a cookie the
  registry does not hold creates a session and arms its timer.
\<close>

theorem unknown_command_creates_session:
  "handleConnection cString (sample_order [] []) ''10.0.0.1:1'' (readFrom (sample_header 0x42)) initial
     = Inr (\<lparr>sessions = [7 \<mapsto> newSession 3 7], timers = [sample_timer]\<rparr>, [])
   \<and> sessions \<lparr>sessions = [7 \<mapsto> newSession 3 7], timers = [sample_timer]\<rparr> \<noteq> sessions initial
   \<and> timers \<lparr>sessions = [7 \<mapsto> newSession 3 7], timers = [sample_timer]\<rparr> \<noteq> timers initial"
  by (simp add: observer_defs sample_defs codec_defs handler_defs)

section \<open>Short payloads\<close>

text \<open>
  Claim C1 fails on the code: \<^verbatim>\<open>handleConnectReply\<close> and \<^verbatim>\<open>handleReport\<close> read
  \<^verbatim>\<open>buffer[1]\<close> and \<^verbatim>\<open>buffer[2]\<close> without a look at the length, where \<^verbatim>\<open>handleInit\<close>
  checks it. A ConnectReply with a payload of 0 or 1 bytes and a Report with a payload of
  0 or 2 bytes, sent to the server with an empty registry, end in a panic.
\<close>

theorem short_payload_panics:
  "handleConnection getString sch addr (readFrom (sample_header NNConnectReply)) initial
     = Inl (IndexOutOfRange 1 0)
   \<and> handleConnection getString sch addr (readFrom (sample_header NNConnectReply @ [1])) initial
     = Inl (IndexOutOfRange 1 1)
   \<and> handleConnection getString sch addr (readFrom (sample_header NNReportRequest)) initial
     = Inl (IndexOutOfRange 1 0)
   \<and> handleConnection getString sch addr (readFrom (sample_header NNReportRequest @ [1, 1])) initial
     = Inl (IndexOutOfRange 2 2)"
  by (simp add: sample_defs codec_defs handler_defs)

text \<open>
  A Report with a payload of 3 to 8 bytes is not dropped either: \<^verbatim>\<open>buffer[:9]\<close> is within
  the capacity of the receive buffer, the reply is filled up with its zero bytes, and the
  report is recorded.
\<close>

lemma short_report_is_handled:
  "eventsOf (handleConnection getString (sample_order [] [1]) ''10.0.0.1:1''
       (readFrom (sample_header NNReportRequest @ [1, 1, 5])) sample_server)
     = [WriteTo ''10.0.0.1:1'' (createPacketHeader 3 NNReportReply 7 @ [1, 1, 0] @ replicate 6 0)]
   \<and> map_option Connected (clientOf 7 1 (handleConnection getString (sample_order [] [1]) ''10.0.0.1:1''
       (readFrom (sample_header NNReportRequest @ [1, 1, 5])) sample_server))
     = Some [1 \<mapsto> True]"
  by (simp add: observer_defs sample_server_def sample_defs codec_defs handler_defs)

section \<open>Expiry\<close>

text \<open>
  Claim C3 fails on the code: the closure writes every cancellation to \<^verbatim>\<open>addr\<close>, the
  source of the datagram that created the session. Two clients join from two addresses and
  are paired; when the timer fires, one cancellation is written for each of them, both to
  the address of the first. The second client's addresses are another one.
\<close>

theorem expiry_writes_to_creator:
  "eventsOf (run cString (two_join @ [Fire [1, 2] sample_timer]) initial)
     = [WriteTo ''10.0.0.1:1'' (init_reply 1), WriteTo ''10.0.0.2:2'' (init_reply 2), GoRetry 7 1 2,
        WriteTo ''10.0.0.1:1'' (cancellation 1), WriteTo ''10.0.0.1:1'' (cancellation 2)]
   \<and> map_option NegotiateIP (clientOf 7 2 (run cString two_join initial)) = Some ''10.0.0.2:2''
   \<and> map_option ServerIP (clientOf 7 2 (run cString two_join initial)) = Some ''10.0.0.2:2''"
  by (simp add: observer_defs expire_def sample_defs codec_defs handler_defs)

section \<open>Game names\<close>

text \<open>
  Claim C4 fails on the code: the game name is compared with the registered clients'
  only when the index is new. An Init of a registered client with another game name
  is taken, and the two clients of the session have two game names. An Init with
  that game name and a new index is rejected.
\<close>

theorem registered_client_changes_game_name:
  "map_option GameName (clientOf 7 1 (run cString
      (two_join @ [Receive (sample_order [1, 2] [1, 2]) ''10.0.0.1:1'' (readFrom (sample_init 1 1 0 other_name))])
      initial)) = Some ''x''
   \<and> map_option GameName (clientOf 7 2 (run cString
      (two_join @ [Receive (sample_order [1, 2] [1, 2]) ''10.0.0.1:1'' (readFrom (sample_init 1 1 0 other_name))])
      initial)) = Some ''mkwii''
   \<and> clientOf 7 3 (run cString
      (two_join @ [Receive (sample_order [1, 2] [1, 2]) ''10.0.0.3:3'' (readFrom (sample_init 1 3 0 other_name))])
      initial) = None"
  by (simp add: observer_defs sample_defs codec_defs handler_defs)

end
